theory Spec2Isabelle
  imports Main "HOL-Library.Sublist"
begin

section \<open>JavaScript strings\<close>

text \<open>
  A JavaScript string is a sequence of UTF-16 code units, and \<open>length\<close>, \<open>slice\<close>,
  \<open>startsWith\<close> and the regular expressions of the source (none has the \<open>u\<close> flag) all
  work on code units. The model reads one \<^typ>\<open>char\<close> as one code unit. The source tests
  code units against ASCII characters (\<open><\<close>, \<open>>\<close>, the backtick, the line feed, the slash,
  digits, word characters), against white space (\<open>trim\<close>) and against line terminators (the
  dot of a regular expression); the code units above \<open>0xFF\<close>, which \<^typ>\<open>char\<close> does not
  have, matter only as further white space and line separators.
\<close>

definition nl :: char where
  "nl = CHR 0x0A"

text \<open>\<open>s.startsWith(p)\<close>.\<close>

definition startsWith :: "string \<Rightarrow> string \<Rightarrow> bool" where
  "startsWith s p = (take (length p) s = p)"

text \<open>\<open>s.slice(a, b)\<close> for indices \<open>0 \<le> a\<close>, \<open>0 \<le> b\<close>; \<open>s.slice(a)\<close> is \<open>drop a s\<close>.\<close>

definition slice :: "string \<Rightarrow> nat \<Rightarrow> nat \<Rightarrow> string" where
  "slice s a b = take (b - a) (drop a s)"

text \<open>\<open>xs.join(sep)\<close> on an array of strings.\<close>

fun join :: "string \<Rightarrow> string list \<Rightarrow> string" where
  "join sep [] = []"
| "join sep [x] = x"
| "join sep (x # y # ys) = x @ sep @ join sep (y # ys)"

text \<open>\<open>s.split('\n')\<close>: the empty string splits into one empty line.\<close>

fun split_nl :: "string \<Rightarrow> string list" where
  "split_nl [] = [[]]"
| "split_nl (c # cs) =
     (if c = nl then [] # split_nl cs
      else (case split_nl cs of [] \<Rightarrow> [[c]] | l # ls \<Rightarrow> (c # l) # ls))"

text \<open>
  \<open>s.trim()\<close> removes white space and line terminators from both ends. Of the code units
  ECMAScript counts as such, these are the ones below \<open>0x100\<close>: tab, line feed, vertical
  tab, form feed, carriage return, space and the no-break space.
\<close>

definition is_js_space :: "char \<Rightarrow> bool" where
  "is_js_space c =
     (c = CHR 0x09 \<or> c = CHR 0x0A \<or> c = CHR 0x0B \<or> c = CHR 0x0C \<or> c = CHR 0x0D \<or>
      c = CHR 0x20 \<or> c = CHR 0xA0)"

definition trim :: "string \<Rightarrow> string" where
  "trim s = rev (dropWhile is_js_space (rev (dropWhile is_js_space s)))"


section \<open>Application state\<close>

text \<open>
  \<open>buildPageContext\<close> reads a snapshot of the store, \<open>StoreSlices\<close>. Its editor tabs are
  \<open>EditorTabState\<close> objects, of which only the field \<open>value\<close> is read (\<open>tab_value\<close> here).
  The entries of \<open>playgroundOutput\<close> and the values of \<open>assessments\<close> and \<open>gradings\<close> are typed
  \<open>any\<close> in the source; they are modelled by the fields the function reads. A field that the
  source tests before use (by truthiness, by \<open>!= null\<close> or through \<open>?.\<close>) is an \<open>option\<close>,
  \<open>None\<close> standing for \<open>undefined\<close> or \<open>null\<close>, so a snapshot with missing parts is a value
  of these types. An index (\<open>activeTab\<close>, \<open>currentGradingQuestion\<close>, \<open>currentAssessmentQuestion\<close>)
  and a key of a lookup are numbers; reading an array at a number that is not one of its
  indices gives \<open>undefined\<close>, as reading at an index beyond its end does, so they are
  \<^typ>\<open>nat\<close>.
\<close>

record EditorTabState =
  tab_value :: string

text \<open>
  An output entry is turned into text by
  \<^verbatim>\<open>o.type === 'result' ? String(o.value) : o.type === 'errors' ? o.errors : String(o)\<close>
  and the texts are joined. An entry is modelled by its kind and the text it contributes
  to the join: \<open>String(o.value)\<close>, the text of \<open>o.errors\<close>, or \<open>String(o)\<close>.
\<close>

datatype InterpreterOutput =
    ResultOutput string
  | ErrorsOutput string
  | OtherOutput string

text \<open>
  A question (\<open>gq.question\<close> of a grading answer, \<open>assessment.questions[i]\<close> of an
  assessment) with its fields \<open>content\<close>, \<open>type\<close> and \<open>answer\<close>; \<open>q_answer\<close> holds
  \<open>String(answer)\<close> of an answer that is not \<open>null\<close>.
\<close>

record Question =
  q_content :: "string option"
  q_type :: "string option"
  q_answer :: "string option"

record Grade =
  g_comments :: "string option"

record Student =
  s_name :: "string option"
  s_username :: "string option"

text \<open>An element \<open>gq\<close> of \<open>grading.answers\<close>: fields \<open>question\<close>, \<open>grade\<close>, \<open>student\<close>.\<close>

record GradingQuestion =
  gq_question :: "Question option"
  gq_grade :: "Grade option"
  gq_student :: "Student option"

record Grading =
  g_answers :: "GradingQuestion list option"

record Assessment =
  a_title :: "string option"
  a_longSummary :: "string option"
  a_questions :: "Question list option"

record StoreSlices =
  playgroundEditorTabs :: "EditorTabState list"
  playgroundActiveTab :: "nat option"
  playgroundOutput :: "InterpreterOutput list"
  playgroundReplValue :: string
  assessmentEditorTabs :: "EditorTabState list"
  assessmentActiveTab :: "nat option"
  currentAssessmentId :: "nat option"
  currentAssessmentQuestion :: "nat option"
  gradingEditorTabs :: "EditorTabState list"
  gradingActiveTab :: "nat option"
  currentSubmissionId :: "nat option"
  currentGradingQuestion :: "nat option"
  assessments :: "nat \<Rightarrow> Assessment option"
  gradings :: "nat \<Rightarrow> Grading option"

text \<open>The result of \<open>buildPageContext\<close>.\<close>

record PageContext =
  pageType :: string
  pageContext :: string

text \<open>\<open>xs[i]\<close> on an array: \<open>undefined\<close> beyond its end.\<close>

definition nth_opt :: "'a list \<Rightarrow> nat \<Rightarrow> 'a option" where
  "nth_opt xs i = (if i < length xs then Some (xs ! i) else None)"

text \<open>A value inside a template literal: \<open>undefined\<close> is written as the word.\<close>

definition template :: "string option \<Rightarrow> string" where
  "template s = (case s of None \<Rightarrow> ''undefined'' | Some t \<Rightarrow> t)"

text \<open>
  A natural number inside a template literal (\<open>${i + 1}\<close>): its decimal digits.
\<close>

definition digit_char :: "nat \<Rightarrow> char" where
  "digit_char d = ''0123456789'' ! d"

fun string_of_nat :: "nat \<Rightarrow> string" where
  "string_of_nat n =
     (if n < 10 then [digit_char n]
      else string_of_nat (n div 10) @ [digit_char (n mod 10)])"

declare string_of_nat.simps [simp del]

text \<open>
  The fixed sentences of the source hold an em dash (U+2014), which lies outside the range
  of \<^typ>\<open>char\<close>; it is written as the three bytes of its UTF-8 encoding. The sentences
  are only concatenated, never measured or scanned.
\<close>

definition em_dash :: string where
  "em_dash = [CHR 0xE2, CHR 0x80, CHR 0x94]"


subsection \<open>Snapshots as JavaScript reads them\<close>









section \<open>Truncation\<close>

text \<open>
  \<^verbatim>\<open>function truncate(text: string, maxLen: number = 3000): string {
    if (text.length <= maxLen) return text;
    return text.slice(0, maxLen) + '\n... [truncated]';
  }\<close>
  The limit is a character count: every call passes a positive integer literal (\<open>3000\<close> by
  default, \<open>1500\<close>, \<open>1000\<close>, \<open>800\<close>), so it is a \<^typ>\<open>nat\<close>; a call without the second
  argument is written with \<open>3000\<close> here.
\<close>

definition truncate :: "string \<Rightarrow> nat \<Rightarrow> string" where
  "truncate text maxLen =
     (if length text \<le> maxLen then text
      else slice text 0 maxLen @ ''\<newline>... [truncated]'')"


section \<open>Stripping markup\<close>

text \<open>
  \<^verbatim>\<open>function stripHtml(html: string): string {
    return html.replace(/<[^>]*>/g, '').trim();
  }\<close>
  The regular expression \<open><[^>]*>\<close> matches at a position when the code unit there is \<open><\<close>
  and some \<open>>\<close> follows; the match ends with the first such \<open>>\<close> (the class \<open>[^>]\<close> cannot
  run over it, and backtracking to a shorter run never meets a \<open>>\<close>). \<open>match_tag\<close> is the
  match attempted at the head of a string: it returns what follows the match.
  A global \<open>replace\<close> scans from the left, restarts after each match, and copies a code unit
  where no match starts.
\<close>

definition lt :: char where
  "lt = CHR 0x3C"

definition gt :: char where
  "gt = CHR 0x3E"

fun after_gt :: "string \<Rightarrow> string option" where
  "after_gt [] = None"
| "after_gt (c # cs) = (if c = gt then Some cs else after_gt cs)"

definition match_tag :: "string \<Rightarrow> string option" where
  "match_tag s = (case s of [] \<Rightarrow> None | c # cs \<Rightarrow> if c = lt then after_gt cs else None)"

lemma after_gt_length: "after_gt cs = Some r \<Longrightarrow> length r < length cs"
  by (induction cs) (auto split: if_splits)

function replace_tags :: "string \<Rightarrow> string" where
  "replace_tags [] = []"
| "replace_tags (c # cs) =
     (case match_tag (c # cs) of
        Some rest \<Rightarrow> replace_tags rest
      | None \<Rightarrow> c # replace_tags cs)"
  by pat_completeness auto
termination
  by (relation "measure length")
     (auto simp: match_tag_def dest: after_gt_length split: if_splits)

definition stripHtml :: "string \<Rightarrow> string" where
  "stripHtml html = trim (replace_tags html)"

text \<open>
  The specification's wording of the stripping pass, written on its own: cut the input at
  the first \<open><\<close>; when a \<open>>\<close> follows it, delete the span from that \<open><\<close> to the next \<open>>\<close>
  and go on behind it; everything else is kept as it is.
\<close>

function delete_tag_spans :: "string \<Rightarrow> string" where
  "delete_tag_spans s =
     (if dropWhile (\<lambda>c. c \<noteq> lt) s = [] then s
      else if dropWhile (\<lambda>c. c \<noteq> gt) (tl (dropWhile (\<lambda>c. c \<noteq> lt) s)) = [] then s
      else takeWhile (\<lambda>c. c \<noteq> lt) s
           @ delete_tag_spans (tl (dropWhile (\<lambda>c. c \<noteq> gt) (tl (dropWhile (\<lambda>c. c \<noteq> lt) s)))))"
  by pat_completeness auto
termination
proof (relation "measure length", simp)
  fix s :: string
  let ?a = "dropWhile (\<lambda>c. c \<noteq> lt) s"
  let ?b = "dropWhile (\<lambda>c. c \<noteq> gt) (tl ?a)"
  assume "?a \<noteq> []" and b: "?b \<noteq> []"
  have "length ?b \<le> length (tl ?a)" by (rule length_dropWhile_le)
  also have "\<dots> \<le> length ?a" by simp
  also have "\<dots> \<le> length s" by (rule length_dropWhile_le)
  finally have "length ?b \<le> length s" .
  moreover from b have "length (tl ?b) < length ?b" by (cases ?b) auto
  ultimately show "(tl ?b, s) \<in> measure length" by simp
qed

declare delete_tag_spans.simps [simp del]


section \<open>Rendering a message\<close>

text \<open>
  \<open>MessageRenderer\<close> scans \<open>message.content\<close> with
  \<^verbatim>\<open>const codeBlockRegex = /```(\w+)?\n([\s\S]*?)```/g;\<close>
  and pushes one node per piece onto \<open>parts\<close>. A node is modelled by what the renderer
  computes for it: a run of plain text by its key and its lines (\<open>text.split('\n')\<close>, each
  drawn as the line and a line break), a code block by its snippet id, its language and its
  code. The message id, which prefixes every key, is the same for all nodes of a message and
  is left out; the key \<open>${messageId}-text-${lastIndex}\<close> is \<open>TextKey lastIndex\<close>, the key
  \<open>${messageId}-text-end\<close> is \<open>TextEndKey\<close>, and the snippet id
  \<open>${messageId}-code-${codeBlockIndex}\<close> is \<open>CodeKey codeBlockIndex\<close>. The two branches on the
  language (\<open>javascript\<close> or \<open>js\<close>, and every other) pass the same id, code and language to
  \<open>ChatbotCodeSnippet\<close> and differ only in a styled wrapper.
\<close>

datatype segment_key = TextKey nat | TextEndKey | CodeKey nat

datatype DisplaySegment =
    TextSegment (text_key: segment_key) (text_lines: "string list")
  | CodeSegment (code_key: segment_key) (language: string) (source: string)

definition fence :: string where
  "fence = ''```''"

text \<open>The class \<open>\w\<close>: ASCII letters, digits and the underscore.\<close>

definition is_word_char :: "char \<Rightarrow> bool" where
  "is_word_char c =
     (let n = (of_char c :: nat)
      in (65 \<le> n \<and> n \<le> 90) \<or> (97 \<le> n \<and> n \<le> 122) \<or> (48 \<le> n \<and> n \<le> 57) \<or> n = 95)"

text \<open>
  \<open>[\s\S]*?```\<close>: the lazy body grows one code unit at a time until a fence follows, so it
  ends at the nearest fence; \<open>find_fence\<close> returns the length of the body.
\<close>

fun find_fence :: "string \<Rightarrow> nat option" where
  "find_fence [] = None"
| "find_fence (c # cs) =
     (if startsWith (c # cs) fence then Some 0 else map_option Suc (find_fence cs))"

text \<open>
  The whole expression attempted at the head of a string. After the opening fence the
  greedy \<open>\w+\<close> takes the longest run of word characters; the next code unit must be the
  line feed (a shorter run is followed by a word character, and with the group skipped the
  line feed must follow the fence at once, so backtracking finds nothing else). The result
  is the first capture group (undefined when the run is empty), the second capture group
  and the length of the match.
\<close>

definition match_at :: "string \<Rightarrow> (string option \<times> string \<times> nat) option" where
  "match_at s =
     (if startsWith s fence then
        (let word = takeWhile is_word_char (drop 3 s);
             rest = dropWhile is_word_char (drop 3 s)
         in case rest of
              [] \<Rightarrow> None
            | c # body_on \<Rightarrow>
                if c = nl then
                  (case find_fence body_on of
                     None \<Rightarrow> None
                   | Some k \<Rightarrow>
                       Some (if word = [] then None else Some word,
                             take k body_on,
                             3 + length word + 1 + k + 3))
                else None)
      else None)"

text \<open>
  \<open>codeBlockRegex.exec(content)\<close> with the scan position \<open>i\<close> (the \<open>lastIndex\<close> of the
  regular expression object): the first position from \<open>i\<close> on where the expression
  matches. The result holds \<open>match.index\<close>, \<open>match[1]\<close>, \<open>match[2]\<close> and the new
  \<open>lastIndex\<close>; \<open>None\<close> is \<open>null\<close>.
\<close>

datatype regex_match =
  RegexMatch (index: nat) (group1: "string option") (group2: string) (re_lastIndex: nat)

function regex_exec :: "string \<Rightarrow> nat \<Rightarrow> regex_match option" where
  "regex_exec content i =
     (if length content < i then None
      else (case match_at (drop i content) of
              Some (tag, body, n) \<Rightarrow>
                Some (RegexMatch i tag body (i + n))
            | None \<Rightarrow> regex_exec content (Suc i)))"
  by pat_completeness auto
termination
  by (relation "measure (\<lambda>(content, i). Suc (length content) - i)") auto

declare regex_exec.simps [simp del]

lemma startsWith_length:
  assumes "startsWith s p"
  shows "length p \<le> length s"
proof -
  from assms have "length (take (length p) s) = length p"
    by (simp add: startsWith_def)
  then show ?thesis by simp
qed

lemma length_fence: "length fence = 3"
  by (simp add: fence_def)

lemma find_fence_bound: "find_fence s = Some k \<Longrightarrow> k + 3 \<le> length s"
proof (induction s arbitrary: k)
  case Nil
  then show ?case by simp
next
  case (Cons c cs)
  show ?case
  proof (cases "startsWith (c # cs) fence")
    case True
    with Cons.prems have "k = 0" by simp
    with startsWith_length[OF True] show ?thesis by (simp add: length_fence)
  next
    case False
    with Cons.prems obtain j where "find_fence cs = Some j" "k = Suc j" by auto
    with Cons.IH show ?thesis by simp
  qed
qed

lemma match_at_bound:
  assumes "match_at s = Some (tag, body, n)"
  shows "7 \<le> n \<and> n \<le> length s"
proof -
  from assms obtain c body_on k where
    r: "dropWhile is_word_char (drop 3 s) = c # body_on" and
    k: "find_fence body_on = Some k" and
    n: "n = 3 + length (takeWhile is_word_char (drop 3 s)) + 1 + k + 3"
    by (auto simp: match_at_def Let_def split: if_splits list.splits option.splits)
  have "length (takeWhile is_word_char (drop 3 s)) + length (dropWhile is_word_char (drop 3 s))
          = length (drop 3 s)"
    by (metis length_append takeWhile_dropWhile_id)
  moreover from assms have "startsWith s fence"
    by (auto simp: match_at_def split: if_splits)
  then have "3 \<le> length s" using startsWith_length length_fence by fastforce
  moreover have "k + 3 \<le> length body_on" using k by (rule find_fence_bound)
  ultimately show ?thesis using r n by simp
qed

lemma regex_exec_bound:
  "regex_exec content i = Some m \<Longrightarrow>
     i \<le> index m \<and> index m + 7 \<le> re_lastIndex m \<and> re_lastIndex m \<le> length content"
proof (induction content i rule: regex_exec.induct)
  case (1 content i)
  show ?case
  proof (cases "length content < i")
    case True
    with "1.prems" show ?thesis by (simp add: regex_exec.simps[of content i])
  next
    case False
    show ?thesis
    proof (cases "match_at (drop i content)")
      case None
      with False "1.prems" have "regex_exec content (Suc i) = Some m"
        by (simp add: regex_exec.simps[of content i])
      with "1.IH"(1)[OF False None] show ?thesis by simp
    next
      case (Some t)
      obtain tag body n where t: "t = (tag, body, n)" by (cases t)
      from match_at_bound[of "drop i content" tag body n] Some t
      have "7 \<le> n \<and> n \<le> length content - i" by simp
      with False Some t "1.prems" show ?thesis
        by (auto simp: regex_exec.simps[of content i])
    qed
  qed
qed

text \<open>
  The \<open>while\<close> loop of the renderer, with its variables \<open>lastIndex\<close>, \<open>codeBlockIndex\<close> and
  \<open>parts\<close>. It ends because every match is at least seven code units long, so the scan
  position grows.
\<close>

function render_loop ::
  "string \<Rightarrow> nat \<Rightarrow> nat \<Rightarrow> DisplaySegment list \<Rightarrow> nat \<times> DisplaySegment list" where
  "render_loop content lastIndex codeBlockIndex parts =
     (case regex_exec content lastIndex of
        None \<Rightarrow> (lastIndex, parts)
      | Some m \<Rightarrow>
          render_loop content (re_lastIndex m) (Suc codeBlockIndex)
            (parts
             @ (if lastIndex < index m
                then [TextSegment (TextKey lastIndex) (split_nl (slice content lastIndex (index m)))]
                else [])
             @ [CodeSegment (CodeKey codeBlockIndex)
                  (case group1 m of Some lang \<Rightarrow> lang | None \<Rightarrow> ''javascript'')
                  (group2 m)]))"
  by pat_completeness auto
termination
  by (relation "measure (\<lambda>(content, lastIndex, _, _). Suc (length content) - lastIndex)")
     (auto dest!: regex_exec_bound)

declare render_loop.simps [simp del]

definition renderMessage :: "string \<Rightarrow> DisplaySegment list" where
  "renderMessage content =
     (case render_loop content 0 0 [] of
        (lastIndex, parts) \<Rightarrow>
          if lastIndex < length content
          then parts @ [TextSegment TextEndKey (split_nl (drop lastIndex content))]
          else parts)"

text \<open>
  Writing the segments back, as the specification's invariant describes it: the lines of a
  text segment joined with line feeds, the source of a code segment wrapped in the fence
  markers with its language tag.
\<close>

text \<open>The language tag as the fence carried it: nothing for an undefined first group.\<close>

definition tag_text :: "string option \<Rightarrow> string" where
  "tag_text tag = (case tag of None \<Rightarrow> [] | Some t \<Rightarrow> t)"

definition code_block :: "string \<Rightarrow> string \<Rightarrow> string" where
  "code_block tag src = fence @ tag @ [nl] @ src @ fence"

text \<open>
  \<open>reproduces segs s\<close>: the segments, written back in order, give exactly \<open>s\<close>, where a code
  segment of language \<open>javascript\<close> may also stand for a fence that carried no language tag
  (the renderer fills that default in).
\<close>

fun reproduces :: "DisplaySegment list \<Rightarrow> string \<Rightarrow> bool" where
  "reproduces [] s = (s = [])"
| "reproduces (TextSegment k ls # segs) s =
     (startsWith s (join [nl] ls) \<and> reproduces segs (drop (length (join [nl] ls)) s))"
| "reproduces (CodeSegment k lang src # segs) s =
     ((startsWith s (code_block lang src) \<and>
         reproduces segs (drop (length (code_block lang src)) s)) \<or>
      (lang = ''javascript'' \<and> startsWith s (code_block [] src) \<and>
         reproduces segs (drop (length (code_block [] src)) s)))"

text \<open>The fence markers of a text, counted from the left without overlap.\<close>

fun fence_count :: "string \<Rightarrow> nat" where
  "fence_count (a # b # c # rest) =
     (if [a, b, c] = fence then Suc (fence_count rest) else fence_count (b # c # rest))"
| "fence_count _ = 0"

text \<open>
  A complete code block, in the words of the specification's scan: a fence, an optional
  language tag of word characters, a line feed, any text, and a fence. \<open>has_code_block\<close>
  says that a content holds one somewhere.
\<close>

definition has_code_block :: "string \<Rightarrow> bool" where
  "has_code_block content =
     (\<exists>pre tag body post. list_all is_word_char tag \<and>
        content = pre @ code_block tag body @ post)"


section \<open>Extracting the page context\<close>

text \<open>
  \<^verbatim>\<open>function getEditorCode(editorTabs, activeTab): string | undefined {
    if (editorTabs.length === 0) return undefined;
    if (activeTab !== null && editorTabs[activeTab]) {
      return editorTabs[activeTab].value;
    }
    const allCode = editorTabs.map((tab, i) => `// Tab ${i + 1}\n${tab.value}`).join('\n\n');
    return allCode || undefined;
  }\<close>
\<close>

definition getEditorCode :: "EditorTabState list \<Rightarrow> nat option \<Rightarrow> string option" where
  "getEditorCode editorTabs activeTab =
     (if length editorTabs = 0 then None
      else
        (case (case activeTab of None \<Rightarrow> None | Some i \<Rightarrow> nth_opt editorTabs i) of
           Some tab \<Rightarrow> Some (tab_value tab)
         | None \<Rightarrow>
             (let allCode =
                    join [nl, nl]
                      (map (\<lambda>(i, tab). ''// Tab '' @ string_of_nat (i + 1) @ [nl] @ tab_value tab)
                         (enumerate 0 editorTabs))
              in if allCode = [] then None else Some allCode)))"

text \<open>
  \<open>pathname.match(/^\/courses\/(\d+)\/(.*)/)\<close>. The greedy \<open>\d+\<close> takes the longest run of
  digits after \<open>/courses/\<close>, which must not be empty and must be followed by a slash. The
  dot matches no line terminator, so the second group is the rest of the path up to the
  first line feed or carriage return. The result is the pair of the two groups.
\<close>

definition is_digit :: "char \<Rightarrow> bool" where
  "is_digit c = (let n = (of_char c :: nat) in 48 \<le> n \<and> n \<le> 57)"

definition is_line_terminator :: "char \<Rightarrow> bool" where
  "is_line_terminator c = (c = CHR 0x0A \<or> c = CHR 0x0D)"

definition course_match :: "string \<Rightarrow> (string \<times> string) option" where
  "course_match pathname =
     (if startsWith pathname ''/courses/'' then
        (let digits = takeWhile is_digit (drop 9 pathname);
             rest = dropWhile is_digit (drop 9 pathname)
         in if digits = [] then None
            else (case rest of
                    [] \<Rightarrow> None
                  | c # sub \<Rightarrow>
                      if c = CHR ''/''
                      then Some (digits, takeWhile (\<lambda>c. \<not> is_line_terminator c) sub)
                      else None))
      else None)"

definition output_text :: "InterpreterOutput \<Rightarrow> string" where
  "output_text out =
     (case out of ResultOutput v \<Rightarrow> v | ErrorsOutput e \<Rightarrow> e | OtherOutput t \<Rightarrow> t)"

text \<open>The fixed first sentences of the three branches that read the store.\<close>

definition playground_description :: string where
  "playground_description =
     ''The user is currently on the Source Academy Playground '' @ em_dash
     @ '' an interactive code editor for the Source language (a subset of JavaScript).''"

definition grading_description :: string where
  "grading_description =
     ''The user is on the Grading page '' @ em_dash
     @ '' a staff view for reviewing student submissions.''"

definition assessment_description :: string where
  "assessment_description =
     ''The user is on an assessment page (mission, quest, path, or other assignment type).''"

text \<open>
  \<open>buildPageContext\<close> collects the pieces of the context in an array \<open>parts\<close> and joins them
  with line feeds. The pieces that depend on the store are written as functions of their
  own, in the order of the source: \<open>playground_parts\<close> is the REPL input and the recent
  output of the playground branch; \<open>grading_parts\<close> is what the grading branch pushes for
  the selected submission (\<open>grading_question_parts\<close> for the answer \<open>gq\<close> found);
  \<open>assessment_parts\<close> is what the assessment branch pushes for the selected assessment
  (\<open>assessment_question_parts\<close> for the question found).
\<close>

definition playground_parts :: "StoreSlices \<Rightarrow> string list" where
  "playground_parts store =
     (if playgroundReplValue store \<noteq> []
      then [[nl] @ ''The user's current REPL input: '' @ playgroundReplValue store]
      else [])
     @ (if 0 < length (playgroundOutput store)
        then (let outputTexts =
                    join [nl]
                      (map output_text
                         (drop (length (playgroundOutput store) - 10) (playgroundOutput store)))
              in [[nl] @ ''Recent program output:'' @ [nl] @ truncate outputTexts 1000])
        else [])"

definition grading_question_parts :: "GradingQuestion \<Rightarrow> string list" where
  "grading_question_parts gq =
     (case gq_question gq of
        None \<Rightarrow> []
      | Some q \<Rightarrow>
          (case q_content q of
             None \<Rightarrow> []
           | Some c \<Rightarrow>
               if c \<noteq> []
               then [[nl] @ ''Question being graded:'' @ [nl] @ truncate (stripHtml c) 1500]
               else []))
     @ (case gq_question gq of
          None \<Rightarrow> []
        | Some q \<Rightarrow>
            (case q_answer q of
               None \<Rightarrow> []
             | Some a \<Rightarrow>
                 [[nl] @ ''Student's submitted answer:'' @ [nl] @ ''```javascript'' @ [nl]
                  @ truncate a 3000 @ [nl] @ ''```'']))
     @ (case gq_grade gq of
          None \<Rightarrow> []
        | Some g \<Rightarrow>
            (case g_comments g of
               None \<Rightarrow> []
             | Some c \<Rightarrow> if c \<noteq> [] then [[nl] @ ''Grader comments so far: '' @ c] else []))
     @ (case gq_student gq of
          None \<Rightarrow> []
        | Some st \<Rightarrow>
            [[nl] @ ''Student: '' @ template (s_name st) @ '' ('' @ template (s_username st)
             @ '')''])"

definition grading_parts :: "StoreSlices \<Rightarrow> string list" where
  "grading_parts store =
     (case currentSubmissionId store of
        None \<Rightarrow> []
      | Some sid \<Rightarrow>
          (case gradings store sid of
             None \<Rightarrow> []
           | Some grading \<Rightarrow>
               (case g_answers grading of
                  None \<Rightarrow> []
                | Some answers \<Rightarrow>
                    (case currentGradingQuestion store of
                       None \<Rightarrow> []
                     | Some qi \<Rightarrow>
                         (case nth_opt answers qi of
                            None \<Rightarrow> []
                          | Some gq \<Rightarrow> grading_question_parts gq)))))"

definition assessment_question_parts :: "nat \<Rightarrow> Question \<Rightarrow> string list" where
  "assessment_question_parts qi question =
     (case q_content question of
        None \<Rightarrow> []
      | Some c \<Rightarrow>
          if c \<noteq> []
          then [[nl] @ ''Current question (Q'' @ string_of_nat (qi + 1) @ ''):'' @ [nl]
                @ truncate (stripHtml c) 1500]
          else [])
     @ (if q_type question = Some ''programming''
        then (case q_answer question of
                None \<Rightarrow> []
              | Some a \<Rightarrow>
                  [[nl] @ ''Student's current answer code:'' @ [nl] @ ''```javascript'' @ [nl]
                   @ truncate a 3000 @ [nl] @ ''```''])
        else [])"

definition assessment_parts :: "StoreSlices \<Rightarrow> string list" where
  "assessment_parts store =
     (case currentAssessmentId store of
        None \<Rightarrow> []
      | Some aid \<Rightarrow>
          (case assessments store aid of
             None \<Rightarrow> []
           | Some assessment \<Rightarrow>
               (case a_title assessment of
                  None \<Rightarrow> []
                | Some t \<Rightarrow> if t \<noteq> [] then [[nl] @ ''Assessment title: '' @ t] else [])
               @ (case a_longSummary assessment of
                    None \<Rightarrow> []
                  | Some ls \<Rightarrow>
                      if ls \<noteq> []
                      then [[nl] @ ''Assessment summary: '' @ truncate (stripHtml ls) 800]
                      else [])
               @ (case currentAssessmentQuestion store of
                    None \<Rightarrow> []
                  | Some qi \<Rightarrow>
                      (case a_questions assessment of
                         None \<Rightarrow> []
                       | Some questions \<Rightarrow>
                           (case nth_opt questions qi of
                              None \<Rightarrow> []
                            | Some question \<Rightarrow> assessment_question_parts qi question)))))"

definition buildPageContext :: "string \<Rightarrow> StoreSlices \<Rightarrow> PageContext" where
  "buildPageContext pathname store =
     (if startsWith pathname ''/playground'' then
        \<lparr>pageType = ''playground'',
         pageContext =
           join [nl]
             ([playground_description, ''Route: '' @ pathname]
              @ (case getEditorCode (playgroundEditorTabs store) (playgroundActiveTab store) of
                   None \<Rightarrow> []
                 | Some code \<Rightarrow>
                     if code \<noteq> []
                     then [[nl] @ ''The user's current code in the editor:'' @ [nl]
                           @ ''```javascript'' @ [nl] @ truncate code 3000 @ [nl] @ ''```'']
                     else [])
              @ playground_parts store)\<rparr>
      else
        (case course_match pathname of
           Some (courseId, subPath) \<Rightarrow>
             if startsWith subPath ''grading'' then
               \<lparr>pageType = ''grading'',
                pageContext =
                  join [nl]
                    ([grading_description, ''Route: '' @ pathname]
                     @ grading_parts store
                     @ (case getEditorCode (gradingEditorTabs store) (gradingActiveTab store) of
                          None \<Rightarrow> []
                        | Some gradingCode \<Rightarrow>
                            if gradingCode \<noteq> []
                            then [[nl] @ ''Code currently visible in the grading editor:'' @ [nl]
                                  @ ''```javascript'' @ [nl] @ truncate gradingCode 3000 @ [nl]
                                  @ ''```'']
                            else []))\<rparr>
             else if startsWith subPath ''groundcontrol'' then
               \<lparr>pageType = ''groundcontrol'',
                pageContext =
                  ''The user is on Ground Control '' @ em_dash
                  @ '' a staff management page for assessments.'' @ [nl] @ ''Route: '' @ pathname\<rparr>
             else if startsWith subPath ''adminpanel'' then
               \<lparr>pageType = ''adminpanel'',
                pageContext =
                  ''The user is on the Admin Panel '' @ em_dash
                  @ '' course administration settings.'' @ [nl] @ ''Route: '' @ pathname\<rparr>
             else if startsWith subPath ''achievements'' then
               \<lparr>pageType = ''achievements'',
                pageContext =
                  ''The user is on the Achievements page '' @ em_dash
                  @ '' gamification and goals tracking.'' @ [nl] @ ''Route: '' @ pathname\<rparr>
             else if startsWith subPath ''sourcecast'' then
               \<lparr>pageType = ''sourcecast'',
                pageContext =
                  ''The user is on the Sourcecast page '' @ em_dash
                  @ '' recorded coding sessions.'' @ [nl] @ ''Route: '' @ pathname\<rparr>
             else if startsWith subPath ''game'' then
               \<lparr>pageType = ''game'',
                pageContext =
                  ''The user is on the Game page '' @ em_dash
                  @ '' the Source Academy story game.'' @ [nl] @ ''Route: '' @ pathname\<rparr>
             else if startsWith subPath ''stories'' then
               \<lparr>pageType = ''stories'',
                pageContext =
                  ''The user is on the Stories page '' @ em_dash
                  @ '' story management for the game.'' @ [nl] @ ''Route: '' @ pathname\<rparr>
             else
               \<lparr>pageType = ''assessment'',
                pageContext =
                  join [nl]
                    ([assessment_description, ''Route: '' @ pathname]
                     @ assessment_parts store
                     @ (case getEditorCode (assessmentEditorTabs store) (assessmentActiveTab store) of
                          None \<Rightarrow> []
                        | Some assessmentCode \<Rightarrow>
                            if assessmentCode \<noteq> []
                            then [[nl] @ ''Code currently in the assessment editor:'' @ [nl]
                                  @ ''```javascript'' @ [nl] @ truncate assessmentCode 3000 @ [nl]
                                  @ ''```'']
                            else []))\<rparr>
         | None \<Rightarrow>
             if startsWith pathname ''/mission-control'' then
               \<lparr>pageType = ''mission-control'',
                pageContext =
                  ''The user is on Mission Control '' @ em_dash
                  @ '' assessment management interface.'' @ [nl] @ ''Route: '' @ pathname\<rparr>
             else if startsWith pathname ''/contributors'' then
               \<lparr>pageType = ''contributors'',
                pageContext =
                  ''The user is on the Contributors page '' @ em_dash
                  @ '' listing Source Academy contributors.'' @ [nl] @ ''Route: '' @ pathname\<rparr>
             else if startsWith pathname ''/welcome'' then
               \<lparr>pageType = ''welcome'',
                pageContext =
                  ''The user is on the Welcome page '' @ em_dash
                  @ '' initial setup after login.'' @ [nl] @ ''Route: '' @ pathname\<rparr>
             else
               \<lparr>pageType = ''general'',
                pageContext =
                  ''The user is browsing Source Academy.'' @ [nl] @ ''Route: '' @ pathname\<rparr>))"

text \<open>
  The routes of the specification's dispatch table. A course route is \<open>/courses/{id}/...\<close>
  with a numeric id: \<open>/courses/\<close>, one or more digits, a slash, and any rest.
\<close>

definition course_route :: "string \<Rightarrow> bool" where
  "course_route pathname =
     (\<exists>courseId rest. courseId \<noteq> [] \<and> list_all is_digit courseId \<and>
        pathname = ''/courses/'' @ courseId @ ''/'' @ rest)"


text \<open>The page types of the course branch, and all page types.\<close>

definition course_page_types :: "string list" where
  "course_page_types =
     [''grading'', ''groundcontrol'', ''adminpanel'', ''achievements'', ''sourcecast'', ''game'',
      ''stories'', ''assessment'']"


text \<open>A store in which nothing is open and nothing is selected.\<close>

definition blank_store :: StoreSlices where
  "blank_store =
     \<lparr>playgroundEditorTabs = [], playgroundActiveTab = None, playgroundOutput = [],
      playgroundReplValue = [], assessmentEditorTabs = [], assessmentActiveTab = None,
      currentAssessmentId = None, currentAssessmentQuestion = None, gradingEditorTabs = [],
      gradingActiveTab = None, currentSubmissionId = None, currentGradingQuestion = None,
      assessments = (\<lambda>_. None), gradings = (\<lambda>_. None)\<rparr>"

text \<open>
  Two stores for the examples below: one whose grading editor holds code while no
  submission is selected, and one in which the active tab of each of the three editors is
  empty.
\<close>

definition grading_store_with_code :: StoreSlices where
  "grading_store_with_code =
     blank_store\<lparr>gradingEditorTabs := [\<lparr>tab_value = ''x=1;''\<rparr>], gradingActiveTab := Some 0\<rparr>"

definition store_with_empty_tabs :: StoreSlices where
  "store_with_empty_tabs =
     blank_store\<lparr>playgroundEditorTabs := [\<lparr>tab_value = ''''\<rparr>], playgroundActiveTab := Some 0,
       playgroundReplValue := ''1+1;'',
       assessmentEditorTabs := [\<lparr>tab_value = ''''\<rparr>], assessmentActiveTab := Some 0,
       gradingEditorTabs := [\<lparr>tab_value = ''''\<rparr>], gradingActiveTab := Some 0\<rparr>"


section \<open>The context extractor on arbitrary snapshots\<close>


















section \<open>Properties of truncation and stripping\<close>

text \<open>
  C2, as the code has it. Truncation is one rule: a text of length at most the limit \<open>L\<close>
  is returned unchanged; a longer text becomes its first \<open>L\<close> characters followed by the
  marker, and the marker of the code is a line feed and then \<open>... [truncated]\<close>. So the
  output is a prefix of the input followed by \<open>\n... [truncated]\<close> and its length is \<open>L\<close>
  plus the sixteen characters of that marker.
\<close>

theorem truncate_rule:
  "(length text \<le> L \<longrightarrow> truncate text L = text) \<and>
   (L < length text \<longrightarrow>
      truncate text L = take L text @ ''\<newline>... [truncated]'' \<and>
      length (truncate text L) = L + length ''\<newline>... [truncated]'' \<and>
      prefix (take L text) text \<and> length (take L text) = L)"
  by (auto simp: truncate_def slice_def take_is_prefix)

theorem truncate_rule_witness:
  "truncate ''let x = 1;'' 10 = ''let x = 1;'' \<and>
   truncate ''let x = 1;'' 3 = ''let\<newline>... [truncated]'' \<and>
   length (truncate ''let x = 1;'' 3) = 3 + 16"
  using truncate_rule [of "''let x = 1;''" 10] truncate_rule [of "''let x = 1;''" 3]
  by simp

text \<open>
  The marker appended is not the bare \<open>... [truncated]\<close>: on \<open>abcd\<close> with limit \<open>2\<close> the
  output is not \<open>ab... [truncated]\<close>, and its length is not \<open>2\<close> plus the fifteen characters
  of \<open>... [truncated]\<close>.
\<close>

theorem truncate_marker_counterexample:
  "2 < length ''abcd'' \<and>
   truncate ''abcd'' 2 \<noteq> take 2 ''abcd'' @ ''... [truncated]'' \<and>
   length (truncate ''abcd'' 2) \<noteq> 2 + length ''... [truncated]''"
  by (simp add: truncate_def slice_def)

lemma replace_tags_no_gt: "after_gt cs = None \<Longrightarrow> replace_tags cs = cs"
proof (induction cs)
  case Nil
  then show ?case by simp
next
  case (Cons c cs)
  then have "after_gt cs = None" by (simp split: if_splits)
  with Cons show ?case by (simp add: match_tag_def)
qed

lemma after_gt_dropWhile:
  "after_gt cs = (case dropWhile (\<lambda>c. c \<noteq> gt) cs of [] \<Rightarrow> None | _ # r \<Rightarrow> Some r)"
  by (induction cs) auto

lemma delete_tag_spans_Nil: "delete_tag_spans [] = []"
  by (simp add: delete_tag_spans.simps)

lemma delete_tag_spans_other:
  "c \<noteq> lt \<Longrightarrow> delete_tag_spans (c # cs) = c # delete_tag_spans cs"
  by (auto simp: delete_tag_spans.simps[of "c # cs"] delete_tag_spans.simps[of cs])

lemma delete_tag_spans_lt:
  "delete_tag_spans (lt # cs) =
     (case after_gt cs of None \<Rightarrow> lt # cs | Some r \<Rightarrow> delete_tag_spans r)"
proof (cases "dropWhile (\<lambda>c. c \<noteq> gt) cs")
  case Nil
  then show ?thesis
    by (simp add: delete_tag_spans.simps[of "lt # cs"] after_gt_dropWhile del: dropWhile_eq_Nil_conv)
next
  case (Cons g r)
  then show ?thesis
    by (simp add: delete_tag_spans.simps[of "lt # cs"] after_gt_dropWhile del: dropWhile_eq_Nil_conv)
qed

lemma replace_tags_eq_delete_tag_spans: "replace_tags s = delete_tag_spans s"
proof (induction s rule: replace_tags.induct)
  case 1
  show ?case by (simp add: delete_tag_spans_Nil)
next
  case (2 c cs)
  show ?case
  proof (cases "c = lt")
    case False
    with 2 show ?thesis by (simp add: match_tag_def delete_tag_spans_other)
  next
    case True
    show ?thesis
    proof (cases "after_gt cs")
      case None
      with True show ?thesis
        by (simp add: match_tag_def delete_tag_spans_lt replace_tags_no_gt)
    next
      case (Some r)
      with True 2 show ?thesis by (simp add: match_tag_def delete_tag_spans_lt)
    qed
  qed
qed

text \<open>
  C4, as the code has it. \<open>stripHtml\<close> deletes every span from a \<open><\<close> to the next \<open>>\<close> and
  leaves the characters outside such spans in place, and then removes the white space at
  both ends of what is left. The example of the specification strips to \<open>Hello World\<close>.
\<close>

theorem stripHtml_deletes_spans_then_trims:
  "stripHtml html = trim (delete_tag_spans html) \<and>
   stripHtml ''<p>Hello <b>World</b></p>'' = ''Hello World''"
proof
  show "stripHtml html = trim (delete_tag_spans html)"
    by (simp add: stripHtml_def replace_tags_eq_delete_tag_spans)
  show "stripHtml ''<p>Hello <b>World</b></p>'' = ''Hello World''"
    by (simp add: stripHtml_def trim_def match_tag_def is_js_space_def lt_def gt_def)
qed

text \<open>
  Text outside the tag delimiters is altered: the blanks around \<open>Hello\<close> are no part of a
  tag span, the span-deleting pass keeps them, and \<open>stripHtml\<close> drops them.
\<close>

theorem stripHtml_outside_text_counterexample:
  "delete_tag_spans '' <b>Hello</b> '' = '' Hello '' \<and>
   stripHtml '' <b>Hello</b> '' = ''Hello'' \<and>
   stripHtml '' <b>Hello</b> '' \<noteq> delete_tag_spans '' <b>Hello</b> ''"
proof -
  have s: "stripHtml '' <b>Hello</b> '' = ''Hello''"
    by (simp add: stripHtml_def trim_def match_tag_def is_js_space_def lt_def gt_def)
  have "replace_tags '' <b>Hello</b> '' = '' Hello ''"
    by (simp add: match_tag_def lt_def gt_def)
  then have d: "delete_tag_spans '' <b>Hello</b> '' = '' Hello ''"
    by (simp only: replace_tags_eq_delete_tag_spans)
  from s d show ?thesis by simp
qed


section \<open>Properties of the message renderer\<close>

lemma split_nl_not_Nil: "split_nl s \<noteq> []"
  by (induction s) (auto split: list.splits)

lemma join_Cons_head: "join sep ((c # l) # ls) = c # join sep (l # ls)"
  by (cases ls) simp_all

lemma join_split_nl: "join [nl] (split_nl s) = s"
proof (induction s)
  case Nil
  show ?case by simp
next
  case (Cons c cs)
  obtain l ls where sp: "split_nl cs = l # ls"
    using split_nl_not_Nil[of cs] by (cases "split_nl cs") auto
  show ?case
  proof (cases "c = nl")
    case True
    with Cons sp show ?thesis by simp
  next
    case False
    with Cons sp show ?thesis by (simp add: join_Cons_head)
  qed
qed

lemma startsWith_decompose: "startsWith s p \<Longrightarrow> s = p @ drop (length p) s"
  unfolding startsWith_def by (metis append_take_drop_id)

lemma reproduces_append:
  "reproduces a s \<Longrightarrow> reproduces b t \<Longrightarrow> reproduces (a @ b) (s @ t)"
proof (induction a s rule: reproduces.induct)
  case (1 s)
  then show ?case by simp
next
  case (2 k ls segs s)
  let ?p = "join [nl] ls"
  from "2.prems" have sw: "startsWith s ?p" and r: "reproduces segs (drop (length ?p) s)"
    by simp_all
  from startsWith_decompose[OF sw] obtain u where s: "s = ?p @ u" and u: "u = drop (length ?p) s"
    by blast
  from "2.IH"[OF r "2.prems"(2)] u have "reproduces (segs @ b) (u @ t)" by simp
  with s show ?case by (simp add: startsWith_def)
next
  case (3 k lang src segs s)
  from "3.prems"(1) consider
    (tagged) "startsWith s (code_block lang src)"
             "reproduces segs (drop (length (code_block lang src)) s)"
  | (default) "lang = ''javascript''" "startsWith s (code_block [] src)"
             "reproduces segs (drop (length (code_block [] src)) s)"
    by auto
  then show ?case
  proof cases
    case tagged
    let ?p = "code_block lang src"
    from startsWith_decompose[OF tagged(1)] obtain u where s: "s = ?p @ u" and u: "u = drop (length ?p) s"
      by blast
    from "3.IH"(1)[OF tagged(2) "3.prems"(2)] u have "reproduces (segs @ b) (u @ t)" by simp
    with s show ?thesis by (simp add: startsWith_def)
  next
    case default
    let ?p = "code_block [] src"
    from startsWith_decompose[OF default(2)] obtain u where s: "s = ?p @ u" and u: "u = drop (length ?p) s"
      by blast
    from "3.IH"(2)[OF default(3) "3.prems"(2)] u have "reproduces (segs @ b) (u @ t)" by simp
    with s default(1) show ?thesis by (simp add: startsWith_def)
  qed
qed

lemma find_fence_take:
  "find_fence s = Some k \<Longrightarrow> take (3 + k) s = take k s @ fence"
proof (induction s arbitrary: k)
  case Nil
  then show ?case by simp
next
  case (Cons c cs)
  show ?case
  proof (cases "startsWith (c # cs) fence")
    case True
    with Cons.prems have "k = 0" by simp
    with True show ?thesis by (simp add: startsWith_def length_fence)
  next
    case False
    with Cons.prems obtain j where "find_fence cs = Some j" "k = Suc j" by auto
    with Cons.IH show ?thesis by (simp add: take_Cons')
  qed
qed

lemma match_at_shape:
  assumes "match_at s = Some (tag, body, n)"
  shows "take n s = code_block (tag_text tag) body \<and> tag \<noteq> Some []"
proof -
  let ?w = "takeWhile is_word_char (drop 3 s)"
  from assms obtain c body_on k where
    sw: "startsWith s fence" and
    r: "dropWhile is_word_char (drop 3 s) = nl # body_on" and
    k: "find_fence body_on = Some k" and
    tag: "tag = (if ?w = [] then None else Some ?w)" and
    body: "body = take k body_on" and
    n: "n = 3 + length ?w + 1 + k + 3"
    by (auto simp: match_at_def Let_def split: if_splits list.splits option.splits)
  from startsWith_decompose[OF sw] have s1: "s = fence @ drop 3 s" by (simp add: length_fence)
  have "drop 3 s = ?w @ dropWhile is_word_char (drop 3 s)" by simp
  with r have s2: "drop 3 s = ?w @ nl # body_on" by simp
  from s1 s2 have s: "s = fence @ ?w @ nl # body_on" by simp
  have "take n s = take n (fence @ ?w @ nl # body_on)" using s by simp
  also have "\<dots> = fence @ ?w @ nl # take (3 + k) body_on"
    using n by (simp add: length_fence take_Cons')
  also have "\<dots> = fence @ ?w @ nl # (take k body_on @ fence)"
    using find_fence_take[OF k] by simp
  finally have "take n s = code_block ?w body"
    by (simp add: code_block_def body)
  moreover have "tag_text tag = ?w" using tag by (simp add: tag_text_def)
  moreover have "tag \<noteq> Some []" using tag by simp
  ultimately show ?thesis by simp
qed

lemma regex_exec_shape:
  "regex_exec content i = Some m \<Longrightarrow>
     slice content (index m) (re_lastIndex m) = code_block (tag_text (group1 m)) (group2 m)"
proof (induction content i rule: regex_exec.induct)
  case (1 content i)
  show ?case
  proof (cases "length content < i")
    case True
    with "1.prems" show ?thesis by (simp add: regex_exec.simps[of content i])
  next
    case False
    show ?thesis
    proof (cases "match_at (drop i content)")
      case None
      with False "1.prems" have "regex_exec content (Suc i) = Some m"
        by (simp add: regex_exec.simps[of content i])
      with "1.IH"(1)[OF False None] show ?thesis by simp
    next
      case (Some t)
      obtain tag body n where t: "t = (tag, body, n)" by (cases t)
      from match_at_shape[of "drop i content" tag body n] Some t
      have "take n (drop i content) = code_block (tag_text tag) body" by simp
      moreover from False Some t "1.prems" have "m = RegexMatch i tag body (i + n)"
        by (auto simp: regex_exec.simps[of content i])
      ultimately show ?thesis by (simp add: slice_def)
    qed
  qed
qed

lemma take_split3:
  "a \<le> b \<Longrightarrow> b \<le> c \<Longrightarrow> take c s = take a s @ slice s a b @ slice s b c"
proof -
  assume ab: "a \<le> b" and bc: "b \<le> c"
  have "take b s = take a s @ slice s a b"
    using ab by (metis slice_def le_add_diff_inverse take_add)
  moreover have "take c s = take b s @ slice s b c"
    using bc by (metis slice_def le_add_diff_inverse take_add)
  ultimately show ?thesis by simp
qed

lemma reproduces_text: "reproduces [TextSegment k (split_nl t)] t"
  by (simp add: join_split_nl startsWith_def)

lemma reproduces_code:
  "reproduces [CodeSegment k (case tag of Some lang \<Rightarrow> lang | None \<Rightarrow> ''javascript'') body]
     (code_block (tag_text tag) body)"
  by (cases tag) (simp_all add: tag_text_def startsWith_def)

lemma render_loop_reproduces:
  "lastIndex \<le> length content \<Longrightarrow> reproduces parts (take lastIndex content) \<Longrightarrow>
   render_loop content lastIndex codeBlockIndex parts = (li, ps) \<Longrightarrow>
   li \<le> length content \<and> reproduces ps (take li content)"
proof (induction content lastIndex codeBlockIndex parts rule: render_loop.induct)
  case (1 content lastIndex codeBlockIndex parts)
  show ?case
  proof (cases "regex_exec content lastIndex")
    case None
    with "1.prems" show ?thesis
      by (simp add: render_loop.simps[of content lastIndex])
  next
    case (Some m)
    let ?text = "if lastIndex < index m
                then [TextSegment (TextKey lastIndex) (split_nl (slice content lastIndex (index m)))]
                else []"
    let ?code = "[CodeSegment (CodeKey codeBlockIndex)
                  (case group1 m of Some lang \<Rightarrow> lang | None \<Rightarrow> ''javascript'')
                  (group2 m)]"
    from regex_exec_bound[OF Some]
    have b: "lastIndex \<le> index m" "index m \<le> re_lastIndex m" "re_lastIndex m \<le> length content"
      by simp_all
    have t: "reproduces ?text (slice content lastIndex (index m))"
    proof (cases "lastIndex < index m")
      case True
      then show ?thesis using reproduces_text by simp
    next
      case False
      with b have "index m = lastIndex" by simp
      then show ?thesis by (simp add: slice_def)
    qed
    have c: "reproduces ?code (slice content (index m) (re_lastIndex m))"
      using regex_exec_shape[OF Some] reproduces_code by simp
    have "take (re_lastIndex m) content
            = take lastIndex content @ slice content lastIndex (index m)
              @ slice content (index m) (re_lastIndex m)"
      using b by (simp add: take_split3)
    with reproduces_append[OF "1.prems"(2) reproduces_append[OF t c]]
    have inv: "reproduces (parts @ ?text @ ?code) (take (re_lastIndex m) content)" by simp
    from "1.prems"(3) Some
    have "render_loop content (re_lastIndex m) (Suc codeBlockIndex) (parts @ ?text @ ?code) = (li, ps)"
      by (simp add: render_loop.simps[of content lastIndex])
    from "1.IH"[OF Some b(3) inv this] show ?thesis .
  qed
qed

text \<open>
  C1. For every message content, the segments that \<open>renderMessage\<close> produces, written back
  in order (the lines of a text segment joined with line feeds, the source of a code segment
  between the fence markers, behind its language tag and a line feed), reproduce the content
  exactly, up to the language tag of a fence that carried none: there the segment has the
  default language \<open>javascript\<close>.
\<close>

theorem renderMessage_round_trip: "reproduces (renderMessage content) content"
proof -
  obtain li ps where r: "render_loop content 0 0 [] = (li, ps)"
    by (cases "render_loop content 0 0 []")
  from render_loop_reproduces[OF _ _ r]
  have li: "li \<le> length content" and ps: "reproduces ps (take li content)" by simp_all
  show ?thesis
  proof (cases "li < length content")
    case True
    from reproduces_append[OF ps reproduces_text[of TextEndKey "drop li content"]]
    have "reproduces (ps @ [TextSegment TextEndKey (split_nl (drop li content))]) content"
      by simp
    with r True show ?thesis by (simp add: renderMessage_def)
  next
    case False
    with li have "take li content = content" by simp
    with ps r False show ?thesis by (simp add: renderMessage_def)
  qed
qed

lemma fence_count_step:
  "fence_count (drop 1 s) \<le> fence_count s \<and> fence_count s \<le> Suc (fence_count (drop 3 s))"
proof (induction "length s" arbitrary: s rule: less_induct)
  case less
  show ?case
  proof (cases s rule: fence_count.cases)
    case (1 a b c rest)
    have r: "fence_count (drop 1 rest) \<le> fence_count rest"
      using less[of rest] 1 by simp
    have q: "fence_count (b # c # rest) \<le> Suc (fence_count (drop 1 rest))"
      using less[of "b # c # rest"] 1 by simp
    show ?thesis
    proof (cases "[a, b, c] = fence")
      case True
      with 1 r q show ?thesis by simp
    next
      case False
      with 1 r q show ?thesis by simp
    qed
  qed simp_all
qed

lemma fence_count_Cons: "fence_count s \<le> fence_count (x # s)"
  using fence_count_step[of "x # s"] by simp

lemma fence_count_append: "fence_count ys \<le> fence_count (xs @ ys)"
proof (induction xs)
  case Nil
  show ?case by simp
next
  case (Cons x xs)
  with fence_count_Cons[of "xs @ ys" x] show ?case by simp
qed

lemma fence_count_fence: "fence_count (fence @ ys) = Suc (fence_count ys)"
  by (simp add: fence_def)

lemma fence_count_code_block:
  "2 \<le> fence_count (pre @ code_block tag body @ post)"
proof -
  have "Suc (fence_count post) = fence_count (fence @ post)"
    by (simp add: fence_count_fence)
  also have "\<dots> \<le> fence_count ((tag @ [nl] @ body) @ fence @ post)"
    by (rule fence_count_append)
  finally have "Suc (Suc (fence_count post))
                  \<le> fence_count (fence @ (tag @ [nl] @ body) @ fence @ post)"
    by (simp add: fence_count_fence)
  also have "\<dots> \<le> fence_count (pre @ fence @ (tag @ [nl] @ body) @ fence @ post)"
    by (rule fence_count_append)
  finally show ?thesis by (simp add: code_block_def)
qed

lemma regex_exec_fence_count:
  assumes "regex_exec content i = Some m"
  shows "2 \<le> fence_count content"
proof -
  from regex_exec_bound[OF assms]
  have b: "index m \<le> re_lastIndex m" "re_lastIndex m \<le> length content" by simp_all
  have "content = take (index m) content @ slice content (index m) (re_lastIndex m)
                    @ drop (re_lastIndex m) content"
    using b by (metis append_take_drop_id slice_def le_add_diff_inverse take_add append.assoc)
  with regex_exec_shape[OF assms]
  have "content = take (index m) content @ code_block (tag_text (group1 m)) (group2 m)
                    @ drop (re_lastIndex m) content" by simp
  then show ?thesis using fence_count_code_block by metis
qed

lemma renderMessage_no_match:
  assumes "regex_exec content 0 = None"
  shows "renderMessage content =
           (if content = [] then [] else [TextSegment TextEndKey (split_nl content)])"
  using assms by (simp add: renderMessage_def render_loop.simps[of content 0])

lemma renderMessage_few_fences:
  assumes "fence_count content < 2"
  shows "renderMessage content =
           (if content = [] then [] else [TextSegment TextEndKey (split_nl content)])"
proof -
  have "regex_exec content 0 = None"
  proof (cases "regex_exec content 0")
    case None
    then show ?thesis .
  next
    case (Some m)
    from regex_exec_fence_count[OF Some] assms show ?thesis by simp
  qed
  then show ?thesis by (rule renderMessage_no_match)
qed

text \<open>
  C7, as the code has it. For every content that is not empty and holds no fence marker,
  \<open>renderMessage\<close> returns exactly one text segment, and the lines of that segment joined
  with line feeds are the content.
\<close>

theorem renderMessage_no_fence:
  assumes "fence_count content = 0" and "content \<noteq> []"
  shows "renderMessage content = [TextSegment TextEndKey (split_nl content)] \<and>
         join [nl] (split_nl content) = content"
  using assms renderMessage_few_fences[of content] by (simp add: join_split_nl)

theorem renderMessage_no_fence_witness:
  "fence_count ''Use a loop.\<newline>Then print x.'' = 0 \<and>
   renderMessage ''Use a loop.\<newline>Then print x.'' =
     [TextSegment TextEndKey [''Use a loop.'', ''Then print x.'']] \<and>
   join [nl] [''Use a loop.'', ''Then print x.''] = ''Use a loop.\<newline>Then print x.''"
  using renderMessage_no_fence [of "''Use a loop.\<newline>Then print x.''"]
  by (simp add: nl_def fence_def)

text \<open>
  The empty content holds no fence marker, and \<open>renderMessage\<close> returns no segment for it:
  the final text is pushed only when \<open>lastIndex < content.length\<close>.
\<close>

theorem renderMessage_empty_counterexample:
  "fence_count '''' = 0 \<and> renderMessage '''' = [] \<and> length (renderMessage '''') \<noteq> 1"
  using renderMessage_few_fences[of "''''"] by simp

lemma match_at_tag_word:
  assumes "match_at s = Some (tag, body, n)"
  shows "list_all is_word_char (tag_text tag)"
proof -
  from assms have "tag_text tag = takeWhile is_word_char (drop 3 s)"
    by (auto simp: match_at_def Let_def tag_text_def split: if_splits list.splits option.splits)
  then show ?thesis
    unfolding list_all_iff by (auto dest: set_takeWhileD)
qed

lemma regex_exec_tag_word:
  "regex_exec content i = Some m \<Longrightarrow> list_all is_word_char (tag_text (group1 m))"
proof (induction content i rule: regex_exec.induct)
  case (1 content i)
  show ?case
  proof (cases "length content < i")
    case True
    with "1.prems" show ?thesis by (simp add: regex_exec.simps[of content i])
  next
    case False
    show ?thesis
    proof (cases "match_at (drop i content)")
      case None
      with False "1.prems" have "regex_exec content (Suc i) = Some m"
        by (simp add: regex_exec.simps[of content i])
      with "1.IH"(1)[OF False None] show ?thesis by simp
    next
      case (Some t)
      obtain tag body n where t: "t = (tag, body, n)" by (cases t)
      from False Some t "1.prems" have "m = RegexMatch i tag body (i + n)"
        by (auto simp: regex_exec.simps[of content i])
      with match_at_tag_word[of "drop i content" tag body n] Some t show ?thesis by simp
    qed
  qed
qed

lemma regex_exec_code_block:
  assumes "regex_exec content i = Some m"
  shows "has_code_block content"
proof -
  from regex_exec_bound[OF assms]
  have b: "index m \<le> re_lastIndex m" "re_lastIndex m \<le> length content" by simp_all
  have "content = take (index m) content @ slice content (index m) (re_lastIndex m)
                    @ drop (re_lastIndex m) content"
    using b by (metis append_take_drop_id slice_def le_add_diff_inverse take_add append.assoc)
  with regex_exec_shape[OF assms]
  have "content = take (index m) content @ code_block (tag_text (group1 m)) (group2 m)
                    @ drop (re_lastIndex m) content" by simp
  with regex_exec_tag_word[OF assms] show ?thesis
    unfolding has_code_block_def by blast
qed

lemma find_fence_append: "find_fence (xs @ fence @ ys) \<noteq> None"
proof (induction xs)
  case Nil
  show ?case by (simp add: fence_def startsWith_def)
next
  case (Cons x xs)
  then show ?case by simp
qed

lemma not_word_nl: "\<not> is_word_char nl"
  by (simp add: is_word_char_def nl_def)

lemma match_at_code_block:
  assumes "list_all is_word_char tag"
  shows "match_at (code_block tag body @ post) \<noteq> None"
proof -
  let ?s = "code_block tag body @ post"
  from assms have all: "\<And>x. x \<in> set tag \<Longrightarrow> is_word_char x"
    by (simp add: list_all_iff)
  have sw: "startsWith ?s fence" by (simp add: startsWith_def code_block_def)
  have d: "drop 3 ?s = tag @ nl # (body @ fence @ post)"
    by (simp add: code_block_def fence_def)
  have t: "takeWhile is_word_char (tag @ nl # (body @ fence @ post)) = tag"
    using all not_word_nl by (simp add: takeWhile_tail)
  have dr: "dropWhile is_word_char (tag @ nl # (body @ fence @ post)) = nl # (body @ fence @ post)"
    using all not_word_nl by (simp add: dropWhile_append2)
  obtain k where k: "find_fence (body @ fence @ post) = Some k"
    using find_fence_append[of body post] by auto
  show ?thesis
    unfolding match_at_def using sw k by (simp only: d t dr Let_def) simp
qed

lemma regex_exec_finds:
  assumes "match_at (drop j content) \<noteq> None" and "j \<le> length content"
  shows "i \<le> j \<Longrightarrow> regex_exec content i \<noteq> None"
proof (induction "j - i" arbitrary: i)
  case 0
  then have "i = j" by simp
  with assms show ?case by (auto simp: regex_exec.simps[of content j] split: prod.splits)
next
  case (Suc d)
  then have lt: "i < j" and d: "d = j - Suc i" by simp_all
  with assms(2) have le: "\<not> length content < i" by simp
  show ?case
  proof (cases "match_at (drop i content)")
    case None
    from Suc.hyps(1)[OF d] lt have "regex_exec content (Suc i) \<noteq> None" by simp
    with None le show ?thesis by (simp add: regex_exec.simps[of content i])
  next
    case (Some t)
    with le show ?thesis by (auto simp: regex_exec.simps[of content i] split: prod.splits)
  qed
qed

lemma has_code_block_iff: "has_code_block content \<longleftrightarrow> regex_exec content 0 \<noteq> None"
proof
  assume "has_code_block content"
  then obtain pre tag body post where w: "list_all is_word_char tag"
    and c: "content = pre @ code_block tag body @ post"
    unfolding has_code_block_def by blast
  from match_at_code_block[OF w, of body post] c
  have "match_at (drop (length pre) content) \<noteq> None" by simp
  moreover from c have "length pre \<le> length content" by simp
  ultimately show "regex_exec content 0 \<noteq> None" by (rule regex_exec_finds) simp
next
  assume "regex_exec content 0 \<noteq> None"
  then obtain m where "regex_exec content 0 = Some m" by auto
  then show "has_code_block content" by (rule regex_exec_code_block)
qed

lemma renderMessage_no_code_block:
  assumes "\<not> has_code_block content"
  shows "renderMessage content =
           (if content = [] then [] else [TextSegment TextEndKey (split_nl content)])"
proof -
  from assms have "regex_exec content 0 = None" by (simp add: has_code_block_iff)
  then show ?thesis by (rule renderMessage_no_match)
qed

lemma render_loop_keeps_parts:
  "render_loop content lastIndex codeBlockIndex parts = (li, ps) \<Longrightarrow> set parts \<subseteq> set ps"
proof (induction content lastIndex codeBlockIndex parts rule: render_loop.induct)
  case (1 content lastIndex codeBlockIndex parts)
  show ?case
  proof (cases "regex_exec content lastIndex")
    case None
    with "1.prems" show ?thesis by (simp add: render_loop.simps[of content lastIndex])
  next
    case (Some m)
    from "1.prems" Some "1.IH"[OF Some] show ?thesis
      by (simp add: render_loop.simps[of content lastIndex] split: if_splits)
  qed
qed

lemma renderMessage_emits_code:
  assumes "has_code_block content"
  shows "\<exists>lang src. CodeSegment (CodeKey 0) lang src \<in> set (renderMessage content)"
proof -
  from assms obtain m where m: "regex_exec content 0 = Some m"
    by (auto simp: has_code_block_iff)
  obtain li ps where r: "render_loop content 0 0 [] = (li, ps)"
    by (cases "render_loop content 0 0 []")
  let ?code = "CodeSegment (CodeKey 0)
                 (case group1 m of Some lang \<Rightarrow> lang | None \<Rightarrow> ''javascript'') (group2 m)"
  from r m obtain parts where
    "render_loop content (re_lastIndex m) (Suc 0) parts = (li, ps)" and "?code \<in> set parts"
    by (simp add: render_loop.simps[of content 0])
  with render_loop_keeps_parts have "?code \<in> set ps" by blast
  with r have "?code \<in> set (renderMessage content)" by (simp add: renderMessage_def)
  then show ?thesis by blast
qed

text \<open>
  C8, as the code has it. A content that holds an unterminated fence and no complete code
  block (it has a fence marker, and nowhere a fence, an optional tag, a line feed, a body
  and a closing fence) gives no code segment: the whole content, every marker included, is
  rendered as one text segment, whose lines joined with line feeds are the content. The
  content \<open>a\n```js\nx=1\<close> of the specification and a content with three markers are the
  instances that follow the theorem. (\<open>has_code_block_iff\<close> and \<open>renderMessage_emits_code\<close>
  above show that the condition cannot be dropped: a content with a complete block always
  gets a code segment.)
\<close>

theorem renderMessage_unterminated_fence:
  assumes "0 < fence_count content" and "\<not> has_code_block content"
  shows "renderMessage content = [TextSegment TextEndKey (split_nl content)] \<and>
         join [nl] (split_nl content) = content"
proof -
  from assms(1) have "content \<noteq> []" by auto
  with renderMessage_no_code_block[OF assms(2)] show ?thesis by (simp add: join_split_nl)
qed

lemma no_code_block_examples:
  "regex_exec ''a\<newline>```js\<newline>x=1'' 0 = None \<and>
   regex_exec ''see ```x``` then\<newline>```js\<newline>x=1'' 0 = None"
  by code_simp

theorem renderMessage_unterminated_fence_witness:
  "0 < fence_count ''a\<newline>```js\<newline>x=1'' \<and> \<not> has_code_block ''a\<newline>```js\<newline>x=1'' \<and>
   renderMessage ''a\<newline>```js\<newline>x=1'' = [TextSegment TextEndKey [''a'', ''```js'', ''x=1'']] \<and>
   join [nl] [''a'', ''```js'', ''x=1''] = ''a\<newline>```js\<newline>x=1'' \<and>
   0 < fence_count ''see ```x``` then\<newline>```js\<newline>x=1'' \<and>
   \<not> has_code_block ''see ```x``` then\<newline>```js\<newline>x=1'' \<and>
   renderMessage ''see ```x``` then\<newline>```js\<newline>x=1'' =
     [TextSegment TextEndKey [''see ```x``` then'', ''```js'', ''x=1'']]"
proof -
  have n: "\<not> has_code_block ''a\<newline>```js\<newline>x=1''"
          "\<not> has_code_block ''see ```x``` then\<newline>```js\<newline>x=1''"
    using no_code_block_examples by (simp_all add: has_code_block_iff)
  have f: "0 < fence_count ''a\<newline>```js\<newline>x=1''"
          "0 < fence_count ''see ```x``` then\<newline>```js\<newline>x=1''"
    by (simp_all add: fence_def)
  from renderMessage_unterminated_fence [OF f(1) n(1)]
    renderMessage_unterminated_fence [OF f(2) n(2)] n f
  show ?thesis by (simp add: nl_def)
qed

text \<open>
  A content may hold an unterminated fence behind a complete code block. Of the three
  fence markers below the third, at position 12, opens a fence with the tag \<open>py\<close>, and no
  fence follows its line; the block before it is still emitted as a code segment, and the
  content is not rendered as a single text segment. The unmatched marker and the text
  behind it are the final text segment.
\<close>

theorem renderMessage_block_before_unterminated_counterexample:
  "fence_count ''```js\<newline>x\<newline>```\<newline>```py\<newline>y'' = 3 \<and>
   startsWith (drop 12 ''```js\<newline>x\<newline>```\<newline>```py\<newline>y'') ''```py\<newline>'' \<and>
   find_fence (drop 18 ''```js\<newline>x\<newline>```\<newline>```py\<newline>y'') = None \<and>
   renderMessage ''```js\<newline>x\<newline>```\<newline>```py\<newline>y'' =
     [CodeSegment (CodeKey 0) ''js'' ''x\<newline>'',
      TextSegment TextEndKey ['''', ''```py'', ''y'']] \<and>
   renderMessage ''```js\<newline>x\<newline>```\<newline>```py\<newline>y'' \<noteq>
     [TextSegment TextEndKey (split_nl ''```js\<newline>x\<newline>```\<newline>```py\<newline>y'')]"
  by code_simp

lemma renderMessage_three_segments:
  "renderMessage ''a\<newline>```js\<newline>x=1\<newline>```\<newline>b'' =
     [TextSegment (TextKey 0) [''a'', ''''],
      CodeSegment (CodeKey 0) ''js'' ''x=1\<newline>'',
      TextSegment TextEndKey ['''', ''b'']]"
  by code_simp

text \<open>
  C3, as the code has it. For the content \<open>a\n```js\nx=1\n```\nb\<close>, \<open>renderMessage\<close> returns
  exactly three segments in order: a text segment with the line \<open>a\<close> and an empty line (the
  text \<open>a\n\<close>), a code segment with language \<open>js\<close> and source \<open>x=1\n\<close> (the captured body
  verbatim, which ends with the line feed before the closing fence), and a text segment
  with an empty line and the line \<open>b\<close> (the text \<open>\nb\<close>).
\<close>

theorem renderMessage_example:
  "renderMessage ''a\<newline>```js\<newline>x=1\<newline>```\<newline>b'' =
     [TextSegment (TextKey 0) [''a'', ''''],
      CodeSegment (CodeKey 0) ''js'' ''x=1\<newline>'',
      TextSegment TextEndKey ['''', ''b'']] \<and>
   join [nl] [''a'', ''''] = ''a\<newline>'' \<and> join [nl] ['''', ''b''] = ''\<newline>b''"
  by (simp add: renderMessage_three_segments nl_def)

text \<open>
  The source of the code segment is not \<open>x=1\<close>, and the texts of the two text segments
  are not \<open>a\<close> and \<open>b\<close>: the line feeds next to the fences stay in the pieces.
\<close>

theorem renderMessage_example_counterexample:
  "source (renderMessage ''a\<newline>```js\<newline>x=1\<newline>```\<newline>b'' ! 1) \<noteq> ''x=1'' \<and>
   join [nl] (text_lines (renderMessage ''a\<newline>```js\<newline>x=1\<newline>```\<newline>b'' ! 0)) \<noteq> ''a'' \<and>
   join [nl] (text_lines (renderMessage ''a\<newline>```js\<newline>x=1\<newline>```\<newline>b'' ! 2)) \<noteq> ''b''"
  by (simp add: renderMessage_three_segments nl_def)


section \<open>Properties of the context extractor\<close>


lemma not_digit_slash: "\<not> is_digit (CHR ''/'')"
  by (simp add: is_digit_def)

lemma course_match_route:
  assumes "courseId \<noteq> []" and "list_all is_digit courseId"
  shows "course_match (''/courses/'' @ courseId @ ''/'' @ rest) =
           Some (courseId, takeWhile (\<lambda>c. \<not> is_line_terminator c) rest)"
proof -
  let ?p = "''/courses/'' @ courseId @ ''/'' @ rest"
  have d: "drop 9 ?p = courseId @ CHR ''/'' # rest" by simp
  from assms(2) have all: "\<And>x. x \<in> set courseId \<Longrightarrow> is_digit x"
    by (simp add: list_all_iff)
  have t: "takeWhile is_digit (courseId @ CHR ''/'' # rest) = courseId"
    using all not_digit_slash by (simp add: takeWhile_tail)
  have dr: "dropWhile is_digit (courseId @ CHR ''/'' # rest) = CHR ''/'' # rest"
    using all not_digit_slash by (simp add: dropWhile_append2)
  have sw: "startsWith ?p ''/courses/''" by (simp add: startsWith_def)
  show ?thesis
    unfolding course_match_def using sw assms(1) by (simp only: d t dr Let_def) simp
qed

lemma course_match_Some_route:
  assumes "course_match pathname = Some (courseId, subPath)"
  shows "\<exists>rest. courseId \<noteq> [] \<and> list_all is_digit courseId \<and>
           pathname = ''/courses/'' @ courseId @ ''/'' @ rest \<and>
           subPath = takeWhile (\<lambda>c. \<not> is_line_terminator c) rest"
proof -
  let ?r = "drop 9 pathname"
  from assms have sw: "startsWith pathname ''/courses/''"
    by (auto simp: course_match_def split: if_splits)
  from assms sw obtain sub where
    ne: "takeWhile is_digit ?r \<noteq> []" and
    dw: "dropWhile is_digit ?r = CHR ''/'' # sub" and
    cid: "courseId = takeWhile is_digit ?r" and
    sp: "subPath = takeWhile (\<lambda>c. \<not> is_line_terminator c) sub"
    by (auto simp: course_match_def Let_def split: if_splits list.splits)
  have "length ''/courses/'' = 9" by simp
  with startsWith_decompose[OF sw] have "pathname = ''/courses/'' @ ?r" by metis
  moreover have "?r = takeWhile is_digit ?r @ dropWhile is_digit ?r" by simp
  ultimately have p: "pathname = ''/courses/'' @ courseId @ ''/'' @ sub"
    using dw cid by (metis append_Cons append_Nil)
  have all: "list_all is_digit courseId"
    unfolding cid list_all_iff by (auto dest: set_takeWhileD)
  from ne cid have "courseId \<noteq> []" by simp
  with all p sp show ?thesis by (intro exI[of _ sub] conjI)
qed

lemma course_route_iff: "course_route pathname \<longleftrightarrow> course_match pathname \<noteq> None"
proof
  assume "course_route pathname"
  then obtain courseId rest where "courseId \<noteq> []" "list_all is_digit courseId"
    "pathname = ''/courses/'' @ courseId @ ''/'' @ rest"
    unfolding course_route_def by blast
  with course_match_route[of courseId rest] show "course_match pathname \<noteq> None" by simp
next
  assume "course_match pathname \<noteq> None"
  then obtain courseId subPath where "course_match pathname = Some (courseId, subPath)"
    by auto
  from course_match_Some_route[OF this] show "course_route pathname"
    unfolding course_route_def by blast
qed

lemma course_match_None_iff: "course_match pathname = None \<longleftrightarrow> \<not> course_route pathname"
  using course_route_iff[of pathname] by blast

lemma course_match_not_playground:
  assumes "course_match pathname \<noteq> None"
  shows "\<not> startsWith pathname ''/playground''"
proof -
  from assms have "startsWith pathname ''/courses/''"
    by (auto simp: course_match_def split: if_splits)
  from startsWith_decompose[OF this] obtain r where "pathname = ''/courses/'' @ r" ..
  then show ?thesis by (simp add: startsWith_def)
qed

lemma pageType_general:
  assumes "\<not> startsWith pathname ''/playground''" and "course_match pathname = None"
    and "\<not> startsWith pathname ''/mission-control''" and "\<not> startsWith pathname ''/contributors''"
    and "\<not> startsWith pathname ''/welcome''"
  shows "buildPageContext pathname store =
           \<lparr>pageType = ''general'',
            pageContext = ''The user is browsing Source Academy.'' @ [nl] @ ''Route: '' @ pathname\<rparr>"
  using assms by (simp add: buildPageContext_def)

lemma pageType_course:
  assumes "course_match pathname = Some (courseId, subPath)"
  shows "pageType (buildPageContext pathname store) \<in> set course_page_types"
  using assms course_match_not_playground[of pathname]
  by (simp add: buildPageContext_def course_page_types_def)

lemma pageType_not_course:
  assumes "course_match pathname = None"
  shows "pageType (buildPageContext pathname store) \<notin> set course_page_types"
  using assms by (simp add: buildPageContext_def course_page_types_def)



text \<open>
  C9. The course branch is taken exactly for the routes \<open>/courses/<digits>/<rest>\<close>: the
  result has one of the page types of the course branch if and only if the route has that
  shape. A route that has not, such as \<open>/courses/5\<close> (nothing behind the id) or
  \<open>/courses/abc/grading\<close> (an id that is not a number), and that matches no other known
  prefix, gets the page type \<open>general\<close>.
\<close>

theorem course_dispatch_numeric_id:
  "(pageType (buildPageContext pathname store) \<in> set course_page_types \<longleftrightarrow>
      course_route pathname) \<and>
   (\<not> course_route pathname \<and> \<not> startsWith pathname ''/playground'' \<and>
    \<not> startsWith pathname ''/mission-control'' \<and> \<not> startsWith pathname ''/contributors'' \<and>
    \<not> startsWith pathname ''/welcome'' \<longrightarrow>
      pageType (buildPageContext pathname store) = ''general'')"
proof (intro conjI impI)
  show "pageType (buildPageContext pathname store) \<in> set course_page_types \<longleftrightarrow>
          course_route pathname"
  proof (cases "course_match pathname")
    case None
    with pageType_not_course[OF None, of store] show ?thesis
      by (simp add: course_match_None_iff)
  next
    case (Some m)
    obtain courseId subPath where "m = (courseId, subPath)" by (cases m)
    with Some pageType_course[of pathname courseId subPath store]
    show ?thesis by (simp add: course_route_iff)
  qed
next
  assume "\<not> course_route pathname \<and> \<not> startsWith pathname ''/playground'' \<and>
    \<not> startsWith pathname ''/mission-control'' \<and> \<not> startsWith pathname ''/contributors'' \<and>
    \<not> startsWith pathname ''/welcome''"
  then show "pageType (buildPageContext pathname store) = ''general''"
    using pageType_general[of pathname store] by (simp add: course_match_None_iff)
qed

lemma not_course_route_examples:
  "\<not> course_route ''/courses/5'' \<and> \<not> course_route ''/courses/abc/grading''"
  by (simp add: course_route_iff course_match_def startsWith_def is_digit_def)

theorem course_dispatch_numeric_id_witness:
  "\<not> course_route ''/courses/5'' \<and>
   pageType (buildPageContext ''/courses/5'' blank_store) = ''general'' \<and>
   \<not> course_route ''/courses/abc/grading'' \<and>
   pageType (buildPageContext ''/courses/abc/grading'' blank_store) = ''general''"
  using course_dispatch_numeric_id [of "''/courses/5''" blank_store]
    course_dispatch_numeric_id [of "''/courses/abc/grading''" blank_store]
    not_course_route_examples
  by (simp add: startsWith_def)

lemma subPath_grading:
  "startsWith (takeWhile (\<lambda>c. \<not> is_line_terminator c) (''grading'' @ rest)) ''grading''"
  by (simp add: startsWith_def is_line_terminator_def)

lemma grading_parts_no_submission: "currentSubmissionId store = None \<Longrightarrow> grading_parts store = []"
  by (simp add: grading_parts_def)

lemma buildPageContext_grading:
  assumes "course_match pathname = Some (courseId, subPath)" and "startsWith subPath ''grading''"
  shows "buildPageContext pathname store =
           \<lparr>pageType = ''grading'',
            pageContext =
              join [nl]
                ([grading_description, ''Route: '' @ pathname]
                 @ grading_parts store
                 @ (case getEditorCode (gradingEditorTabs store) (gradingActiveTab store) of
                      None \<Rightarrow> []
                    | Some gradingCode \<Rightarrow>
                        if gradingCode \<noteq> []
                        then [[nl] @ ''Code currently visible in the grading editor:'' @ [nl]
                              @ ''```javascript'' @ [nl] @ truncate gradingCode 3000 @ [nl]
                              @ ''```'']
                        else []))\<rparr>"
  using assms course_match_not_playground[of pathname]
  by (simp add: buildPageContext_def)

text \<open>
  C6, as the code has it. For every route \<open>/courses/{id}/grading...\<close> and every store in
  which no submission is selected, the page context is the fixed grading sentence and the
  route line, followed only by the code section of the grading editor when
  \<open>getEditorCode\<close> finds code there; no question text, answer code, grader comment or
  student name is appended. When the grading workspace has no editor tab, the page context
  is exactly the sentence and the route line.
\<close>

theorem grading_without_submission:
  assumes "courseId \<noteq> []" and "list_all is_digit courseId"
    and "pathname = ''/courses/'' @ courseId @ ''/grading'' @ rest"
    and "currentSubmissionId store = None"
  shows "buildPageContext pathname store =
           \<lparr>pageType = ''grading'',
            pageContext =
              join [nl]
                ([grading_description, ''Route: '' @ pathname]
                 @ (case getEditorCode (gradingEditorTabs store) (gradingActiveTab store) of
                      None \<Rightarrow> []
                    | Some gradingCode \<Rightarrow>
                        if gradingCode \<noteq> []
                        then [[nl] @ ''Code currently visible in the grading editor:'' @ [nl]
                              @ ''```javascript'' @ [nl] @ truncate gradingCode 3000 @ [nl]
                              @ ''```'']
                        else []))\<rparr> \<and>
         (gradingEditorTabs store = [] \<longrightarrow>
            pageContext (buildPageContext pathname store) =
              grading_description @ [nl] @ ''Route: '' @ pathname)"
proof -
  from assms(3) have p: "pathname = ''/courses/'' @ courseId @ ''/'' @ (''grading'' @ rest)"
    by simp
  have m: "course_match pathname =
             Some (courseId, takeWhile (\<lambda>c. \<not> is_line_terminator c) (''grading'' @ rest))"
    unfolding p using assms(1,2) by (rule course_match_route)
  from buildPageContext_grading[OF m subPath_grading, of store]
    grading_parts_no_submission[OF assms(4)]
  have r: "buildPageContext pathname store =
           \<lparr>pageType = ''grading'',
            pageContext =
              join [nl]
                ([grading_description, ''Route: '' @ pathname]
                 @ (case getEditorCode (gradingEditorTabs store) (gradingActiveTab store) of
                      None \<Rightarrow> []
                    | Some gradingCode \<Rightarrow>
                        if gradingCode \<noteq> []
                        then [[nl] @ ''Code currently visible in the grading editor:'' @ [nl]
                              @ ''```javascript'' @ [nl] @ truncate gradingCode 3000 @ [nl]
                              @ ''```'']
                        else []))\<rparr>"
    by simp
  have "gradingEditorTabs store = [] \<longrightarrow>
            pageContext (buildPageContext pathname store) =
              grading_description @ [nl] @ ''Route: '' @ pathname"
    unfolding r by (simp add: getEditorCode_def)
  with r show ?thesis by blast
qed

theorem grading_without_submission_witness:
  "currentSubmissionId blank_store = None \<and> gradingEditorTabs blank_store = [] \<and>
   buildPageContext ''/courses/5/grading'' blank_store =
     \<lparr>pageType = ''grading'',
      pageContext = grading_description @ ''\<newline>Route: /courses/5/grading''\<rparr>"
proof -
  have d: "list_all is_digit ''5''" by (simp add: is_digit_def)
  have p: "''/courses/5/grading'' = ''/courses/'' @ ''5'' @ ''/grading'' @ ''''" by simp
  have s: "currentSubmissionId blank_store = None" by (simp add: blank_store_def)
  have t: "gradingEditorTabs blank_store = []" by (simp add: blank_store_def)
  from grading_without_submission [OF _ d p s] t s
  show ?thesis by (simp add: getEditorCode_def nl_def)
qed

text \<open>
  With no submission selected and code in the grading editor, the page context of
  \<open>/courses/5/grading\<close> holds more than the fixed sentence and the route line: the code of
  the editor is appended.
\<close>

theorem grading_editor_code_counterexample:
  "currentSubmissionId grading_store_with_code = None \<and>
   pageContext (buildPageContext ''/courses/5/grading'' grading_store_with_code) =
     grading_description
     @ ''\<newline>Route: /courses/5/grading\<newline>\<newline>Code currently visible in the grading editor:\<newline>```javascript\<newline>x=1;\<newline>```'' \<and>
   pageContext (buildPageContext ''/courses/5/grading'' grading_store_with_code) \<noteq>
     grading_description @ ''\<newline>Route: /courses/5/grading''"
proof -
  have m: "course_match ''/courses/5/grading'' = Some (''5'', ''grading'')"
    by (simp add: course_match_def startsWith_def is_digit_def is_line_terminator_def)
  have g: "startsWith ''grading'' ''grading''" by (simp add: startsWith_def)
  have e: "getEditorCode [\<lparr>tab_value = ''x=1;''\<rparr>] (Some 0) = Some ''x=1;''"
    by (simp add: getEditorCode_def nth_opt_def)
  have s: "currentSubmissionId grading_store_with_code = None"
    by (simp add: grading_store_with_code_def blank_store_def)
  show ?thesis
    unfolding buildPageContext_grading[OF m g]
    using s e
    by (simp add: grading_parts_no_submission grading_store_with_code_def blank_store_def
        truncate_def nl_def)
qed

lemma getEditorCode_empty_active:
  "i < length tabs \<Longrightarrow> tab_value (tabs ! i) = [] \<Longrightarrow> getEditorCode tabs (Some i) = Some []"
  by (auto simp: getEditorCode_def nth_opt_def)

lemma pageType_playground:
  assumes "pageType (buildPageContext pathname store) = ''playground''"
  shows "startsWith pathname ''/playground''"
proof (rule ccontr)
  assume n: "\<not> startsWith pathname ''/playground''"
  have "pageType (buildPageContext pathname store) \<noteq> ''playground''"
  proof (cases "course_match pathname")
    case None
    with n show ?thesis by (simp add: buildPageContext_def)
  next
    case (Some m)
    obtain courseId subPath where "m = (courseId, subPath)" by (cases m)
    with Some n show ?thesis by (simp add: buildPageContext_def)
  qed
  with assms show False by simp
qed

lemma pageType_grading:
  assumes "pageType (buildPageContext pathname store) = ''grading''"
  shows "\<exists>courseId subPath. course_match pathname = Some (courseId, subPath) \<and>
      startsWith subPath ''grading''"
proof (rule ccontr)
  assume n: "\<not> (\<exists>courseId subPath. course_match pathname = Some (courseId, subPath) \<and>
      startsWith subPath ''grading'')"
  have "pageType (buildPageContext pathname store) \<noteq> ''grading''"
  proof (cases "course_match pathname")
    case None
    then show ?thesis by (simp add: buildPageContext_def)
  next
    case (Some m)
    obtain courseId subPath where m: "m = (courseId, subPath)" by (cases m)
    with Some n have "\<not> startsWith subPath ''grading''" by simp
    with Some m show ?thesis by (simp add: buildPageContext_def)
  qed
  with assms show False by simp
qed

lemma pageType_assessment:
  assumes "pageType (buildPageContext pathname store) = ''assessment''"
  shows "pageContext (buildPageContext pathname store) =
     join [nl]
       ([assessment_description, ''Route: '' @ pathname]
        @ assessment_parts store
        @ (case getEditorCode (assessmentEditorTabs store) (assessmentActiveTab store) of
             None \<Rightarrow> []
           | Some assessmentCode \<Rightarrow>
               if assessmentCode \<noteq> []
               then [[nl] @ ''Code currently in the assessment editor:'' @ [nl]
                     @ ''```javascript'' @ [nl] @ truncate assessmentCode 3000 @ [nl]
                     @ ''```'']
               else []))"
proof (cases "course_match pathname")
  case None
  then have "pageType (buildPageContext pathname store) \<noteq> ''assessment''"
    by (simp add: buildPageContext_def)
  with assms show ?thesis by simp
next
  case (Some m)
  obtain courseId subPath where m: "m = (courseId, subPath)" by (cases m)
  from Some have np: "\<not> startsWith pathname ''/playground''"
    using course_match_not_playground[of pathname] by simp
  have "\<not> startsWith subPath ''grading'' \<and> \<not> startsWith subPath ''groundcontrol'' \<and>
        \<not> startsWith subPath ''adminpanel'' \<and> \<not> startsWith subPath ''achievements'' \<and>
        \<not> startsWith subPath ''sourcecast'' \<and> \<not> startsWith subPath ''game'' \<and>
        \<not> startsWith subPath ''stories''"
  proof (rule ccontr)
    assume "\<not> ?thesis"
    with Some m np have "pageType (buildPageContext pathname store) \<noteq> ''assessment''"
      by (auto simp: buildPageContext_def)
    with assms show False by simp
  qed
  with Some m np show ?thesis by (simp add: buildPageContext_def)
qed

text \<open>
  C10. When the active tab index of a workspace is in range and that tab holds the empty
  string, \<open>getEditorCode\<close> returns the empty string, and \<open>buildPageContext\<close> pushes no code
  section for the editor: in the playground, the grading and the assessment branch alike
  the page context is the fixed sentence, the route line and the pieces that do not come
  from the editor.
\<close>

theorem empty_active_tab_omitted:
  assumes "i < length tabs" and "tab_value (tabs ! i) = []"
  shows "getEditorCode tabs (Some i) = Some [] \<and>
    (pageType (buildPageContext pathname store) = ''playground'' \<and>
     playgroundEditorTabs store = tabs \<and> playgroundActiveTab store = Some i \<longrightarrow>
       pageContext (buildPageContext pathname store) =
         join [nl] ([playground_description, ''Route: '' @ pathname] @ playground_parts store)) \<and>
    (pageType (buildPageContext pathname store) = ''grading'' \<and>
     gradingEditorTabs store = tabs \<and> gradingActiveTab store = Some i \<longrightarrow>
       pageContext (buildPageContext pathname store) =
         join [nl] ([grading_description, ''Route: '' @ pathname] @ grading_parts store)) \<and>
    (pageType (buildPageContext pathname store) = ''assessment'' \<and>
     assessmentEditorTabs store = tabs \<and> assessmentActiveTab store = Some i \<longrightarrow>
       pageContext (buildPageContext pathname store) =
         join [nl] ([assessment_description, ''Route: '' @ pathname] @ assessment_parts store))"
proof (intro conjI impI)
  show e: "getEditorCode tabs (Some i) = Some []"
    using assms by (rule getEditorCode_empty_active)
  {
    assume a: "pageType (buildPageContext pathname store) = ''playground'' \<and>
      playgroundEditorTabs store = tabs \<and> playgroundActiveTab store = Some i"
    then have "startsWith pathname ''/playground''" by (auto dest: pageType_playground)
    with a e show "pageContext (buildPageContext pathname store) =
         join [nl] ([playground_description, ''Route: '' @ pathname] @ playground_parts store)"
      by (simp add: buildPageContext_def)
  }
  {
    assume a: "pageType (buildPageContext pathname store) = ''grading'' \<and>
      gradingEditorTabs store = tabs \<and> gradingActiveTab store = Some i"
    then obtain courseId subPath where
      "course_match pathname = Some (courseId, subPath)" "startsWith subPath ''grading''"
      by (auto dest: pageType_grading)
    from buildPageContext_grading[OF this, of store] a e
    show "pageContext (buildPageContext pathname store) =
         join [nl] ([grading_description, ''Route: '' @ pathname] @ grading_parts store)"
      by simp
  }
  {
    assume a: "pageType (buildPageContext pathname store) = ''assessment'' \<and>
      assessmentEditorTabs store = tabs \<and> assessmentActiveTab store = Some i"
    with pageType_assessment[of pathname store] e
    show "pageContext (buildPageContext pathname store) =
         join [nl] ([assessment_description, ''Route: '' @ pathname] @ assessment_parts store)"
      by simp
  }
qed

lemma course_match_examples:
  "course_match ''/courses/5/grading'' = Some (''5'', ''grading'') \<and>
   course_match ''/courses/5/missions'' = Some (''5'', ''missions'')"
  by (simp add: course_match_def startsWith_def is_digit_def is_line_terminator_def)

lemma pageType_examples:
  "pageType (buildPageContext ''/playground'' store) = ''playground'' \<and>
   pageType (buildPageContext ''/courses/5/grading'' store) = ''grading'' \<and>
   pageType (buildPageContext ''/courses/5/missions'' store) = ''assessment''"
  by (simp add: buildPageContext_def course_match_examples startsWith_def)

theorem empty_active_tab_omitted_witness:
  "getEditorCode [\<lparr>tab_value = ''''\<rparr>] (Some 0) = Some [] \<and>
   pageContext (buildPageContext ''/playground'' store_with_empty_tabs) =
     playground_description
     @ ''\<newline>Route: /playground\<newline>\<newline>The user's current REPL input: 1+1;'' \<and>
   pageContext (buildPageContext ''/courses/5/grading'' store_with_empty_tabs) =
     grading_description @ ''\<newline>Route: /courses/5/grading'' \<and>
   pageContext (buildPageContext ''/courses/5/missions'' store_with_empty_tabs) =
     assessment_description @ ''\<newline>Route: /courses/5/missions''"
proof -
  let ?tabs = "[\<lparr>tab_value = ''''\<rparr>]"
  have i: "0 < length ?tabs" and v: "tab_value (?tabs ! 0) = []" by simp_all
  have s: "playgroundEditorTabs store_with_empty_tabs = ?tabs"
          "playgroundActiveTab store_with_empty_tabs = Some 0"
          "gradingEditorTabs store_with_empty_tabs = ?tabs"
          "gradingActiveTab store_with_empty_tabs = Some 0"
          "assessmentEditorTabs store_with_empty_tabs = ?tabs"
          "assessmentActiveTab store_with_empty_tabs = Some 0"
    by (simp_all add: store_with_empty_tabs_def blank_store_def)
  have parts: "playground_parts store_with_empty_tabs
                 = [''\<newline>The user's current REPL input: 1+1;'']"
    "grading_parts store_with_empty_tabs = []" "assessment_parts store_with_empty_tabs = []"
    by (simp_all add: playground_parts_def grading_parts_def assessment_parts_def
        store_with_empty_tabs_def blank_store_def nl_def)
  from empty_active_tab_omitted [OF i v, of "''/playground''" store_with_empty_tabs]
    empty_active_tab_omitted [OF i v, of "''/courses/5/grading''" store_with_empty_tabs]
    empty_active_tab_omitted [OF i v, of "''/courses/5/missions''" store_with_empty_tabs]
    pageType_examples[of store_with_empty_tabs] s parts
  show ?thesis by (simp add: nl_def)
qed


section \<open>Properties of the context extractor on arbitrary snapshots\<close>















end
